theory Spec2Isabelle
  imports Main
begin

section \<open>The listings scraper (WebScraper\_Basel\_Kristian.py)\<close>

text \<open>
  The script drives a browser with Selenium, parses each rendered page with BeautifulSoup,
  collects one dictionary per listing in the global list \<open>all_data\<close> and writes the list
  with pandas. The three libraries are not part of the script. They are taken as
  parameters: a record of operations for the parser (\<open>bs4\<close>) and one for the browser
  (\<open>webdriver\<close>), every operation being allowed to raise. The script itself, that is the
  lookups, the handlers, the loops and the order of the calls, is translated line by line.
  Fixed pauses (\<open>time.sleep\<close>) have no counterpart, since time is not modelled.
\<close>

subsection \<open>Exceptions, strings, records\<close>

text \<open>
  The values of \<open>exn\<close> are the instances of Python's \<open>Exception\<close>. The script's handlers
  tell \<open>TimeoutException\<close> from every other class only; \<open>str\<close> is what \<open>str(e)\<close> gives.
\<close>

datatype exn = TimeoutException (str: string) | OtherException (str: string)

text \<open>
  \<open>s.strip()\<close> removes leading and trailing white space. Characters are code points
  below 256, of which Python counts these as white space.
\<close>

definition isspace :: "char \<Rightarrow> bool" where
  "isspace c = (of_char c \<in> {9, 10, 11, 12, 13, 28, 29, 30, 31, 32, 133, 160 :: nat})"

definition strip :: "string \<Rightarrow> string" where
  "strip s = rev (dropWhile isspace (rev (dropWhile isspace s)))"

text \<open>\<open>str(n)\<close> for a natural number, as the f-string of the listing count needs it.\<close>

function str_nat :: "nat \<Rightarrow> string" where
  "str_nat n =
     (if n < 10 then [char_of (48 + n)]
      else str_nat (n div 10) @ [char_of (48 + n mod 10)])"
  by pat_completeness auto
termination
  by (relation "measure (\<lambda>n. n)") auto

declare str_nat.simps [simp del]

text \<open>
  A listing is a Python dictionary, whose keys keep their insertion order: an association
  list of key and value.
\<close>

type_synonym listing = "(string \<times> string) list"

subsection \<open>The parser library, as far as the script uses it\<close>

text \<open>
  \<open>'el\<close> is the type of tags (the parsed document is a tag too).
  \<open>find_tag B t name cls\<close> is \<open>t.find(name, class_=cls)\<close>, \<open>text_of B t\<close> is \<open>t.text\<close>.
  \<open>find\<close> and \<open>select_one\<close> return \<open>None\<close> when nothing matches. A tag is always true
  in a condition, so \<open>if rooms:\<close> asks whether the lookup returned a tag.
\<close>

record 'el bs4 =
  BeautifulSoup :: "string \<Rightarrow> string \<Rightarrow> exn + 'el"
  select :: "'el \<Rightarrow> string \<Rightarrow> exn + 'el list"
  find_tag :: "'el \<Rightarrow> string \<Rightarrow> string \<Rightarrow> exn + 'el option"
  select_one :: "'el \<Rightarrow> string \<Rightarrow> exn + 'el option"
  text_of :: "'el \<Rightarrow> exn + string"

subsection \<open>The browser, the console and the file system\<close>

datatype By = ID | CSS_SELECTOR

text \<open>
  Everything the script does to the outside is recorded, in order, in a trace: the calls
  to the browser (recorded when made, whether they return or raise), the lines printed
  and the file written (its name and its rows of cells).
\<close>

datatype event =
    Get string
  | MaximizeWindow
  | UntilClickable By string
  | UntilPresent By string
  | Click
  | PageSource
  | ExecuteScript string
  | Quit
  | Print string
  | ToCsv string "string list list"

text \<open>
  \<open>'d\<close> is the state of the browser session, \<open>'w\<close> the type of web elements. An
  operation returns its result, or the exception it raises, and the session's next state.
  \<open>until_clickable W t b sel\<close> is
  \<open>WebDriverWait(driver, t).until(EC.element_to_be_clickable((b, sel)))\<close> and
  \<open>until_present\<close> the same with \<open>EC.presence_of_element_located\<close>.
\<close>

record ('d, 'w) webdriver =
  get :: "string \<Rightarrow> 'd \<Rightarrow> (exn + unit) \<times> 'd"
  maximize_window :: "'d \<Rightarrow> (exn + unit) \<times> 'd"
  until_clickable :: "nat \<Rightarrow> By \<Rightarrow> string \<Rightarrow> 'd \<Rightarrow> (exn + 'w) \<times> 'd"
  until_present :: "nat \<Rightarrow> By \<Rightarrow> string \<Rightarrow> 'd \<Rightarrow> (exn + 'w) \<times> 'd"
  click :: "'w \<Rightarrow> 'd \<Rightarrow> (exn + unit) \<times> 'd"
  page_source :: "'d \<Rightarrow> (exn + string) \<times> 'd"
  execute_script :: "string \<Rightarrow> 'd \<Rightarrow> (exn + unit) \<times> 'd"
  quit :: "'d \<Rightarrow> (exn + unit) \<times> 'd"

text \<open>The script's global state: the session, the global list and the trace.\<close>

record 'd world =
  driver :: 'd
  all_data :: "listing list"
  trace :: "event list"

definition print :: "string \<Rightarrow> 'd world \<Rightarrow> 'd world" where
  "print line w = w\<lparr>trace := trace w @ [Print line]\<rparr>"

definition call :: "event \<Rightarrow> ('d \<Rightarrow> (exn + 'a) \<times> 'd) \<Rightarrow> 'd world \<Rightarrow> (exn + 'a) \<times> 'd world" where
  "call ev op w =
     (case op (driver w) of (r, d') \<Rightarrow> (r, w\<lparr>driver := d', trace := trace w @ [ev]\<rparr>))"

subsection \<open>\<open>extract_listing_data\<close>\<close>

text \<open>\<open>tag.text.strip()\<close>\<close>

definition text_strip :: "'el bs4 \<Rightarrow> 'el \<Rightarrow> exn + string" where
  "text_strip B tag = (case text_of B tag of Inl e \<Rightarrow> Inl e | Inr t \<Rightarrow> Inr (strip t))"

text \<open>The class names and selectors of the target site, as the script spells them.\<close>

definition rooms_cls :: string where
  "rooms_cls = ''HgListingRoomsLivingSpacePrice_roomsLivingSpacePrice_M6Ktp''"

definition rooms_fallback :: string where
  \<open>rooms_fallback = ''div:contains('rooms') strong''\<close>

definition size_cls :: string where
  "size_cls = ''HgListingRoomsLivingSpacePrice_commaPrice_mXXpt''"

definition size_fallback :: string where
  \<open>size_fallback = ''strong[title='living space']''\<close>

definition price_cls :: string where
  "price_cls = ''HgListingRoomsLivingSpacePrice_price_u9Vee''"

definition address_cls :: string where
  "address_cls = ''HgListingCard_address_JGiFv''"

definition listing_selector :: string where
  \<open>listing_selector = ''div[data-test="result-list-item"]''\<close>

text \<open>Lines 100 to 106: the number of rooms.\<close>

definition extract_rooms :: "'el bs4 \<Rightarrow> 'el \<Rightarrow> exn + string" where
  "extract_rooms B listing =
     (case find_tag B listing ''strong'' rooms_cls of
        Inl e \<Rightarrow> Inl e
      | Inr (Some rooms) \<Rightarrow> text_strip B rooms
      | Inr None \<Rightarrow>
          (case select_one B listing rooms_fallback of
             Inl e \<Rightarrow> Inl e
           | Inr (Some rooms) \<Rightarrow> text_strip B rooms
           | Inr None \<Rightarrow> Inr ''N/A''))"

text \<open>Lines 109 to 115: the size.\<close>

definition extract_size :: "'el bs4 \<Rightarrow> 'el \<Rightarrow> exn + string" where
  "extract_size B listing =
     (case find_tag B listing ''strong'' size_cls of
        Inl e \<Rightarrow> Inl e
      | Inr (Some size') \<Rightarrow> text_strip B size'
      | Inr None \<Rightarrow>
          (case select_one B listing size_fallback of
             Inl e \<Rightarrow> Inl e
           | Inr (Some size') \<Rightarrow> text_strip B size'
           | Inr None \<Rightarrow> Inr ''N/A''))"

text \<open>Lines 118 to 120: the price.\<close>

definition extract_price :: "'el bs4 \<Rightarrow> 'el \<Rightarrow> exn + string" where
  "extract_price B listing =
     (case find_tag B listing ''span'' price_cls of
        Inl e \<Rightarrow> Inl e
      | Inr (Some price) \<Rightarrow> text_strip B price
      | Inr None \<Rightarrow> Inr ''N/A'')"

text \<open>Lines 123 to 125: the address.\<close>

definition extract_address :: "'el bs4 \<Rightarrow> 'el \<Rightarrow> exn + string" where
  "extract_address B listing =
     (case find_tag B listing ''div'' address_cls of
        Inl e \<Rightarrow> Inl e
      | Inr (Some address) \<Rightarrow> text_strip B address
      | Inr None \<Rightarrow> Inr ''N/A'')"

text \<open>
  The body of the \<open>try\<close> of one listing (lines 100 to 134): the four lookups, each
  followed by its debugging line, then the dictionary. An exception leaves the body at
  the lookup that raises it; the lines printed before stay printed.
\<close>

definition try_listing :: "'el bs4 \<Rightarrow> 'el \<Rightarrow> 'd world \<Rightarrow> (exn + listing) \<times> 'd world" where
  "try_listing B listing w =
     (case extract_rooms B listing of
        Inl e \<Rightarrow> (Inl e, w)
      | Inr rooms \<Rightarrow>
          (let w1 = print (''Rooms: '' @ rooms) w in
           case extract_size B listing of
             Inl e \<Rightarrow> (Inl e, w1)
           | Inr size' \<Rightarrow>
               (let w2 = print (''Size: '' @ size') w1 in
                case extract_price B listing of
                  Inl e \<Rightarrow> (Inl e, w2)
                | Inr price \<Rightarrow>
                    (let w3 = print (''Price: '' @ price) w2 in
                     case extract_address B listing of
                       Inl e \<Rightarrow> (Inl e, w3)
                     | Inr address \<Rightarrow>
                         (let w4 = print (''Address: '' @ address) w3 in
                          (Inr [(''Rooms'', rooms), (''Size'', size'),
                                (''Price'', price), (''Address'', address)], w4))))))"

text \<open>
  The \<open>for\<close> loop (lines 98 to 136), with the local list \<open>scraped_data\<close>: a listing whose
  body raises is reported on the console and adds nothing.
\<close>

fun for_listings ::
  "'el bs4 \<Rightarrow> 'el list \<Rightarrow> listing list \<Rightarrow> 'd world \<Rightarrow> listing list \<times> 'd world" where
  "for_listings B [] scraped_data w = (scraped_data, w)"
| "for_listings B (listing # rest) scraped_data w =
     (case try_listing B listing w of
        (Inr r, w') \<Rightarrow> for_listings B rest (scraped_data @ [r]) w'
      | (Inl e, w') \<Rightarrow>
          for_listings B rest scraped_data (print (''Error extracting data: '' @ str e) w'))"

definition extract_listing_data ::
  "'el bs4 \<Rightarrow> string \<Rightarrow> 'd world \<Rightarrow> (exn + listing list) \<times> 'd world" where
  \<open>extract_listing_data B source w =
     (case BeautifulSoup B source ''html.parser'' of
        Inl e \<Rightarrow> (Inl e, w)
      | Inr soup \<Rightarrow>
          (case select B soup listing_selector of
             Inl e \<Rightarrow> (Inl e, w)
           | Inr listings \<Rightarrow>
               (let w1 = print (''Found '' @ str_nat (length listings)
                                  @ '' listings on the page.'') w
                in case for_listings B listings [] w1 of
                     (scraped_data, w2) \<Rightarrow> (Inr scraped_data, w2))))\<close>

subsection \<open>\<open>scrape_data_from_page\<close> and the pagination loop\<close>

definition scrape_data_from_page ::
  "('d, 'w) webdriver \<Rightarrow> 'el bs4 \<Rightarrow> 'd world \<Rightarrow> (exn + unit) \<times> 'd world" where
  "scrape_data_from_page W B w =
     (case call PageSource (page_source W) w of
        (Inl e, w1) \<Rightarrow> (Inl e, w1)
      | (Inr source, w1) \<Rightarrow>
          (case extract_listing_data B source w1 of
             (Inl e, w2) \<Rightarrow> (Inl e, w2)
           | (Inr scraped_data, w2) \<Rightarrow>
               (Inr (), w2\<lparr>all_data := all_data w2 @ scraped_data\<rparr>)))"

definition scroll_script :: string where
  "scroll_script = ''window.scrollTo(0, document.body.scrollHeight);''"

definition next_selector :: string where
  \<open>next_selector = ''a[aria-label='Go to next page']''\<close>

definition item_selector :: string where
  \<open>item_selector = ''div[data-test='result-list-item']''\<close>

text \<open>
  The body of the loop's \<open>try\<close> (lines 157 to 173): scroll, wait for the next-page
  control, click it, wait for the listings of the new page. The first exception leaves
  the block.
\<close>

definition try_next_page :: "('d, 'w) webdriver \<Rightarrow> 'd world \<Rightarrow> (exn + unit) \<times> 'd world" where
  "try_next_page W w =
     (case call (ExecuteScript scroll_script) (execute_script W scroll_script) w of
        (Inl e, w1) \<Rightarrow> (Inl e, w1)
      | (Inr _, w1) \<Rightarrow>
          (case call (UntilClickable CSS_SELECTOR next_selector)
                  (until_clickable W 10 CSS_SELECTOR next_selector) w1 of
             (Inl e, w2) \<Rightarrow> (Inl e, w2)
           | (Inr next_button, w2) \<Rightarrow>
               (case call Click (click W next_button) w2 of
                  (Inl e, w3) \<Rightarrow> (Inl e, w3)
                | (Inr _, w3) \<Rightarrow>
                    (case call (UntilPresent CSS_SELECTOR item_selector)
                            (until_present W 10 CSS_SELECTOR item_selector) w3 of
                       (Inl e, w4) \<Rightarrow> (Inl e, w4)
                     | (Inr _, w4) \<Rightarrow> (Inr (), w4)))))"

text \<open>
  \<open>while True\<close> (lines 153 to 178). The only handler is \<open>except TimeoutException\<close>, which
  prints and breaks; any other exception leaves the loop, as does one raised by
  \<open>scrape_data_from_page\<close>, which is called outside the \<open>try\<close>. The loop need not end:
  \<open>None\<close> is the run that never leaves it.
\<close>

partial_function (option) pagination_loop ::
  "('d, 'w) webdriver \<Rightarrow> 'el bs4 \<Rightarrow> 'd world \<Rightarrow> ((exn + unit) \<times> 'd world) option" where
  "pagination_loop W B w =
     (case scrape_data_from_page W B w of
        (Inl e, w1) \<Rightarrow> Some (Inl e, w1)
      | (Inr _, w1) \<Rightarrow>
          (case try_next_page W w1 of
             (Inl (TimeoutException m), w2) \<Rightarrow>
               Some (Inr (), print ''Reached the last page.'' w2)
           | (Inl (OtherException m), w2) \<Rightarrow> Some (Inl (OtherException m), w2)
           | (Inr _, w2) \<Rightarrow> pagination_loop W B w2))"

subsection \<open>The output\<close>

text \<open>
  \<open>pd.DataFrame(all_data)\<close> for a list of dictionaries: the columns are the keys in the
  order of their first appearance, the index counts the rows from 0, a key that a row
  lacks gives an empty cell (\<open>None\<close>).
\<close>

record dataframe =
  columns :: "string list"
  index :: "nat list"
  cells :: "string option list list"

definition DataFrame :: "listing list \<Rightarrow> dataframe" where
  "DataFrame data =
     (let cols = rev (remdups (rev (concat (map (map fst) data))))
      in \<lparr>columns = cols, index = [0..<length data],
          cells = map (\<lambda>row. map (map_of row) cols) data\<rparr>)"

text \<open>
  The rows of cells that \<open>df.to_csv(path, index=...)\<close> writes: the header, then one row
  per row of the frame; with \<open>index=True\<close> each row starts with its index, under an empty
  header cell. How a cell is quoted in the file's text is left to pandas.
\<close>

definition csv_rows :: "dataframe \<Rightarrow> bool \<Rightarrow> string list list" where
  "csv_rows df with_index =
     ((if with_index then [''''] else []) @ columns df)
     # map (\<lambda>(i, row). (if with_index then [str_nat i] else [])
                          @ map (\<lambda>c. case c of None \<Rightarrow> '''' | Some v \<Rightarrow> v) row)
         (zip (index df) (cells df))"

definition to_csv :: "dataframe \<Rightarrow> string \<Rightarrow> bool \<Rightarrow> 'd world \<Rightarrow> 'd world" where
  "to_csv df path with_index w = w\<lparr>trace := trace w @ [ToCsv path (csv_rows df with_index)]\<rparr>"

subsection \<open>The script\<close>

definition url :: string where
  "url = ''https://www.immoscout24.ch/en/flat/rent/city-basel''"

text \<open>Step 2 (lines 62 to 70): every exception is caught and reported.\<close>

definition accept_cookie_banner :: "('d, 'w) webdriver \<Rightarrow> 'd world \<Rightarrow> 'd world" where
  "accept_cookie_banner W w =
     (case call (UntilClickable ID ''onetrust-accept-btn-handler'')
             (until_clickable W 10 ID ''onetrust-accept-btn-handler'') w of
        (Inl e, w1) \<Rightarrow> print (''No cookie banner found or failed to click: '' @ str e) w1
      | (Inr cookie_button, w1) \<Rightarrow>
          (case call Click (click W cookie_button) w1 of
             (Inl e, w2) \<Rightarrow> print (''No cookie banner found or failed to click: '' @ str e) w2
           | (Inr _, w2) \<Rightarrow> w2))"

text \<open>
  Lines 51 to 76, up to the loop: open the page, maximise the window, handle the cookie
  banner, start with an empty \<open>all_data\<close>. \<open>d0\<close> is the session that
  \<open>webdriver.Chrome\<close> returns. Nothing catches an exception of the first two calls.
\<close>

definition startup :: "('d, 'w) webdriver \<Rightarrow> 'd \<Rightarrow> (exn + unit) \<times> 'd world" where
  "startup W d0 =
     (case call (Get url) (get W url) \<lparr>driver = d0, all_data = [], trace = []\<rparr> of
        (Inl e, w1) \<Rightarrow> (Inl e, w1)
      | (Inr _, w1) \<Rightarrow>
          (case call MaximizeWindow (maximize_window W) w1 of
             (Inl e, w2) \<Rightarrow> (Inl e, w2)
           | (Inr _, w2) \<Rightarrow> (Inr (), accept_cookie_banner W w2)))"

text \<open>
  How a run ends: the script reaches its last line, or an exception that no handler
  catches ends the process.
\<close>

datatype outcome = Completed | Uncaught exn

definition csv_path :: string where
  "csv_path = ''immoscout_basel_listings.csv''"

text \<open>Lines 181 to 186, after the loop: close the session, then write the file.\<close>

definition shutdown :: "('d, 'w) webdriver \<Rightarrow> 'd world \<Rightarrow> outcome \<times> 'd world" where
  "shutdown W w =
     (case call Quit (quit W) w of
        (Inl e, w1) \<Rightarrow> (Uncaught e, w1)
      | (Inr _, w1) \<Rightarrow>
          (Completed,
           print ''Scraping completed. Data saved to immoscout_basel_listings.csv.''
             (to_csv (DataFrame (all_data w1)) csv_path True w1)))"

text \<open>The whole script. \<open>None\<close> is the run that stays in the loop for ever.\<close>

definition main ::
  "('d, 'w) webdriver \<Rightarrow> 'el bs4 \<Rightarrow> 'd \<Rightarrow> (outcome \<times> 'd world) option" where
  "main W B d0 =
     (case startup W d0 of
        (Inl e, w) \<Rightarrow> Some (Uncaught e, w)
      | (Inr _, w) \<Rightarrow>
          (case pagination_loop W B w of
             None \<Rightarrow> None
           | Some (Inl e, w') \<Rightarrow> Some (Uncaught e, w')
           | Some (Inr _, w') \<Rightarrow> Some (shutdown W w')))"

subsection \<open>A parser and a browser for worked examples\<close>

text \<open>
  To run the script on concrete input, the two libraries are replaced by stand-ins, as
  a test of the script would do. A tag of the stand-in parser carries its own answers:
  for each query the tags it matches (or the exception the query raises), and its text.
  A query without an entry matches nothing.
\<close>

datatype query = Find string string | Select string

datatype tag = Tag (answers: "(query \<times> (exn + tag list)) list") (tag_text: "exn + string")

definition matches :: "tag \<Rightarrow> query \<Rightarrow> exn + tag list" where
  "matches t q = (case map_of (answers t) q of None \<Rightarrow> Inr [] | Some r \<Rightarrow> r)"

definition first_match :: "tag \<Rightarrow> query \<Rightarrow> exn + tag option" where
  "first_match t q =
     (case matches t q of Inl e \<Rightarrow> Inl e | Inr [] \<Rightarrow> Inr None | Inr (x # _) \<Rightarrow> Inr (Some x))"

text \<open>\<open>pages\<close> gives the document that each page source parses to.\<close>

definition stub_bs4 :: "(string \<times> tag) list \<Rightarrow> tag bs4" where
  "stub_bs4 pages =
     \<lparr>BeautifulSoup = (\<lambda>source parser.
          case map_of pages source of None \<Rightarrow> Inr (Tag [] (Inr source)) | Some doc \<Rightarrow> Inr doc),
      select = (\<lambda>t sel. matches t (Select sel)),
      find_tag = (\<lambda>t name cls. first_match t (Find name cls)),
      select_one = (\<lambda>t sel. first_match t (Select sel)),
      text_of = tag_text\<rparr>"

text \<open>
  The stand-in browser shows a site of finitely many pages: its state is the list of the
  page sources from the current page on. There is no cookie banner, and the next-page
  control is there while a further page is.
\<close>

definition stub_driver :: "(string list, unit) webdriver" where
  "stub_driver =
     \<lparr>get = (\<lambda>u d. (Inr (), d)),
      maximize_window = (\<lambda>d. (Inr (), d)),
      until_clickable = (\<lambda>t b sel d.
         if b = CSS_SELECTOR \<and> 1 < length d then (Inr (), d)
         else (Inl (TimeoutException ''Message: ''), d)),
      until_present = (\<lambda>t b sel d. (Inr (), d)),
      click = (\<lambda>button d. (Inr (), tl d)),
      page_source = (\<lambda>d. (Inr (case d of [] \<Rightarrow> '''' | p # _ \<Rightarrow> p), d)),
      execute_script = (\<lambda>script d. (Inr (), d)),
      quit = (\<lambda>d. (Inr (), d))\<rparr>"

subsection \<open>Notions used in the statements\<close>

text \<open>What one listing adds to the result: its record, or nothing when its body raised.\<close>

definition kept :: "exn + 'a \<Rightarrow> 'a list" where
  "kept r = (case r of Inl e \<Rightarrow> [] | Inr x \<Rightarrow> [x])"

text \<open>\<open>v\<close> is the stripped text of the tag that a lookup returned.\<close>

definition is_text_of :: "'el bs4 \<Rightarrow> exn + 'el option \<Rightarrow> string \<Rightarrow> bool" where
  "is_text_of B lookup v =
     (case lookup of
        Inr (Some tag) \<Rightarrow> (case text_of B tag of Inr t \<Rightarrow> v = strip t | Inl e \<Rightarrow> False)
      | _ \<Rightarrow> False)"

text \<open>
  The two lookup schemes, as a description of a field's value \<open>v\<close>, given what the
  selectors return: one selector and then the placeholder, or a first selector, then a
  second one, then the placeholder.
\<close>

definition one_tier :: "'el bs4 \<Rightarrow> exn + 'el option \<Rightarrow> string \<Rightarrow> bool" where
  "one_tier B primary v =
     (case primary of
        Inr (Some tag) \<Rightarrow> text_strip B tag = Inr v
      | Inr None \<Rightarrow> v = ''N/A''
      | Inl e \<Rightarrow> False)"

definition two_tier :: "'el bs4 \<Rightarrow> exn + 'el option \<Rightarrow> exn + 'el option \<Rightarrow> string \<Rightarrow> bool" where
  "two_tier B primary secondary v =
     (case primary of
        Inr (Some tag) \<Rightarrow> text_strip B tag = Inr v
      | Inr None \<Rightarrow> one_tier B secondary v
      | Inl e \<Rightarrow> False)"

text \<open>From \<open>w\<close> to \<open>w'\<close> nothing happened but printing.\<close>

definition prints_only :: "'d world \<Rightarrow> 'd world \<Rightarrow> bool" where
  "prints_only w w' \<longleftrightarrow>
     all_data w' = all_data w \<and> driver w' = driver w \<and>
     (\<exists>lines. trace w' = trace w @ map Print lines)"

text \<open>
  The events that end a run's work: closing the session and writing the file. From \<open>w\<close>
  to \<open>w'\<close> the session stayed open when the trace grew by other events only.
\<close>

fun closing :: "event \<Rightarrow> bool" where
  "closing Quit = True"
| "closing (ToCsv path rows) = True"
| "closing ev = False"

definition stays_open :: "'d world \<Rightarrow> 'd world \<Rightarrow> bool" where
  "stays_open w w' \<longleftrightarrow> (\<exists>evs. trace w' = trace w @ evs \<and> (\<forall>ev \<in> set evs. \<not> closing ev))"

text \<open>The records that the extractor gets from the page the browser shows in \<open>w\<close>.\<close>

definition page_records :: "('d, 'w) webdriver \<Rightarrow> 'el bs4 \<Rightarrow> 'd world \<Rightarrow> listing list" where
  "page_records W B w =
     (case call PageSource (page_source W) w of
        (Inl e, w1) \<Rightarrow> []
      | (Inr source, w1) \<Rightarrow>
          (case fst (extract_listing_data B source w1) of Inl e \<Rightarrow> [] | Inr rs \<Rightarrow> rs))"

text \<open>
  \<open>after_pages W B n w\<close> is the state after \<open>n\<close> full turns of the loop from \<open>w\<close>, each
  of which scraped its page and moved to the next one; \<open>None\<close> when one of them did not.
  \<open>visited W B n w\<close> lists, page by page, the records of the pages \<open>0\<close> to \<open>n\<close>.
\<close>

fun after_pages ::
  "('d, 'w) webdriver \<Rightarrow> 'el bs4 \<Rightarrow> nat \<Rightarrow> 'd world \<Rightarrow> 'd world option" where
  "after_pages W B 0 w = Some w"
| "after_pages W B (Suc n) w =
     (case scrape_data_from_page W B w of
        (Inl e, w1) \<Rightarrow> None
      | (Inr _, w1) \<Rightarrow>
          (case try_next_page W w1 of
             (Inl e, w2) \<Rightarrow> None
           | (Inr _, w2) \<Rightarrow> after_pages W B n w2))"

fun visited ::
  "('d, 'w) webdriver \<Rightarrow> 'el bs4 \<Rightarrow> nat \<Rightarrow> 'd world \<Rightarrow> listing list list" where
  "visited W B 0 w = [page_records W B w]"
| "visited W B (Suc n) w =
     page_records W B w #
     (case scrape_data_from_page W B w of
        (Inl e, w1) \<Rightarrow> []
      | (Inr _, w1) \<Rightarrow>
          (case try_next_page W w1 of
             (Inl e, w2) \<Rightarrow> []
           | (Inr _, w2) \<Rightarrow> visited W B n w2))"

text \<open>All records of the global list have the four keys, in the script's order.\<close>

definition keyed :: "'d world \<Rightarrow> bool" where
  "keyed w \<longleftrightarrow> (\<forall>r\<in>set (all_data w). map fst r = [''Rooms'', ''Size'', ''Price'', ''Address''])"

text \<open>
  What is checked of a finished run in the examples: how it ended, the global list, and
  the closing events of its trace, in order.
\<close>

definition closing_events :: "'d world \<Rightarrow> event list" where
  "closing_events w = filter closing (trace w)"

definition report ::
  "(outcome \<times> 'd world) option \<Rightarrow> (outcome \<times> listing list \<times> event list) option" where
  "report res = map_option (\<lambda>(out, w). (out, all_data w, closing_events w)) res"

definition completion_message :: string where
  "completion_message = ''Scraping completed. Data saved to immoscout_basel_listings.csv.''"

subsection \<open>Worked examples\<close>

definition leaf :: "string \<Rightarrow> tag" where
  "leaf t = Tag [] (Inr t)"

text \<open>
  A listing with all four fields under their class names (and a second match for the
  rooms' fallback selector), one that only the fallback selectors and the price class
  find, and one whose size lookup raises.
\<close>

definition flat_a :: tag where
  "flat_a = Tag [(Find ''strong'' rooms_cls, Inr [leaf '' 3.5 rooms '']),
                 (Find ''strong'' size_cls, Inr [leaf ''80 m2'']),
                 (Find ''span'' price_cls, Inr [leaf ''CHF 2000'']),
                 (Find ''div'' address_cls, Inr [leaf ''Basel'']),
                 (Select rooms_fallback, Inr [leaf ''9 rooms''])] (Inr '''')"

definition flat_b :: tag where
  "flat_b = Tag [(Select rooms_fallback, Inr [leaf ''2 rooms'']),
                 (Select size_fallback, Inr [leaf ''45 m2'']),
                 (Find ''span'' price_cls, Inr [leaf ''CHF 1200''])] (Inr '''')"

definition broken :: tag where
  "broken = Tag [(Find ''strong'' rooms_cls, Inr [leaf ''1 room'']),
                 (Find ''strong'' size_cls, Inl (OtherException ''boom''))] (Inr '''')"

text \<open>A parser in which every \<open>select_one\<close> finds a tag, whatever the selector.\<close>

definition eager_bs4 :: "tag bs4" where
  "eager_bs4 = (stub_bs4 [])\<lparr>select_one := (\<lambda>t sel. Inr (Some (leaf ''CHF 1500'')))\<rparr>"

definition w0 :: "unit world" where
  "w0 = \<lparr>driver = (), all_data = [], trace = []\<rparr>"

text \<open>
  A site of two pages: the first with \<open>flat_a\<close>, \<open>broken\<close> and \<open>flat_b\<close>, the second
  with \<open>flat_b\<close> alone. A page whose source is not in the table has no listing.
\<close>

definition two_pages :: "(string \<times> tag) list" where
  "two_pages =
     [(''page 1'', Tag [(Select listing_selector, Inr [flat_a, broken, flat_b])] (Inr '''')),
      (''page 2'', Tag [(Select listing_selector, Inr [flat_b])] (Inr ''''))]"

text \<open>A browser like \<open>stub_driver\<close>, except that scrolling raises.\<close>

definition scroll_fails :: "(string list, unit) webdriver" where
  "scroll_fails =
     stub_driver\<lparr>execute_script :=
       (\<lambda>script d. (Inl (OtherException ''javascript error''), d))\<rparr>"

text \<open>The example site at its first page, with an empty global list and an empty trace.\<close>

definition site :: "string list world" where
  "site = \<lparr>driver = [''page 1'', ''page 2''], all_data = [], trace = []\<rparr>"

section \<open>Properties of the field extractor\<close>

subsection \<open>Auxiliary facts\<close>

lemmas extract_defs = extract_rooms_def extract_size_def extract_price_def extract_address_def
  text_strip_def

lemmas stub_simps = stub_bs4_def first_match_def matches_def leaf_def

lemmas sel_simps = rooms_cls_def rooms_fallback_def size_cls_def size_fallback_def
  price_cls_def address_cls_def listing_selector_def

lemma print_fields [simp]:
  "all_data (print l w) = all_data w" "driver (print l w) = driver w"
  "trace (print l w) = trace w @ [Print l]"
  by (simp_all add: print_def)

lemma try_listing_Inr:
  "fst (try_listing B l w) = Inr r \<longleftrightarrow>
     (\<exists>rooms sz price address.
        extract_rooms B l = Inr rooms \<and> extract_size B l = Inr sz \<and>
        extract_price B l = Inr price \<and> extract_address B l = Inr address \<and>
        r = [(''Rooms'', rooms), (''Size'', sz), (''Price'', price), (''Address'', address)])"
  by (auto simp: try_listing_def Let_def split: sum.splits)

lemma try_listing_fst: "fst (try_listing B l w) = fst (try_listing B l w')"
  by (simp add: try_listing_def Let_def split: sum.splits)

lemma prints_only_refl: "prints_only w w"
  unfolding prints_only_def by (simp add: exI[of _ "[]"])

lemma prints_only_trans: "prints_only w w1 \<Longrightarrow> prints_only w1 w2 \<Longrightarrow> prints_only w w2"
  unfolding prints_only_def
proof (elim conjE exE, intro conjI)
  fix l1 l2
  assume "trace w1 = trace w @ map Print l1" "trace w2 = trace w1 @ map Print l2"
  then have "trace w2 = trace w @ map Print (l1 @ l2)" by simp
  then show "\<exists>lines. trace w2 = trace w @ map Print lines" by blast
qed simp_all

lemma prints_only_print: "prints_only w (print l w)"
  unfolding prints_only_def by (simp add: exI[of _ "[l]"])

lemma prints_only_print': "prints_only w w1 \<Longrightarrow> prints_only w (print l w1)"
  using prints_only_trans prints_only_print by blast

lemma try_listing_prints: "prints_only w (snd (try_listing B l w))"
  by (simp add: try_listing_def Let_def prints_only_refl prints_only_print' prints_only_print
      split: sum.splits)

lemma for_listings_fst:
  "fst (for_listings B ls acc w) = acc @ concat (map (\<lambda>l. kept (fst (try_listing B l w'))) ls)"
proof (induction ls arbitrary: acc w)
  case Nil
  show ?case by simp
next
  case (Cons l ls)
  obtain r w1 where t: "try_listing B l w = (r, w1)" by (cases "try_listing B l w")
  have r: "fst (try_listing B l w') = r" using t try_listing_fst[of B l w' w] by simp
  show ?case
    by (cases r) (simp_all add: t r Cons.IH kept_def)
qed

lemma for_listings_prints: "prints_only w (snd (for_listings B ls acc w))"
proof (induction ls arbitrary: acc w)
  case Nil
  show ?case by (simp add: prints_only_refl)
next
  case (Cons l ls)
  obtain r w1 where t: "try_listing B l w = (r, w1)" by (cases "try_listing B l w")
  have p: "prints_only w w1" using try_listing_prints[of w B l] t by simp
  show ?case
  proof (cases r)
    case (Inl e)
    have "prints_only w (print (''Error extracting data: '' @ str e) w1)"
      using p by (rule prints_only_print')
    from prints_only_trans[OF this Cons.IH[of "print (''Error extracting data: '' @ str e) w1" acc]]
    show ?thesis
      by (simp add: t Inl del: append.simps)
  next
    case (Inr x)
    from prints_only_trans[OF p Cons.IH[of w1 "acc @ [x]"]]
    show ?thesis
      by (simp add: t Inr)
  qed
qed

lemma extract_listing_data_fst:
  "fst (extract_listing_data B source w) =
     (case BeautifulSoup B source ''html.parser'' of
        Inl e \<Rightarrow> Inl e
      | Inr soup \<Rightarrow>
          (case select B soup listing_selector of
             Inl e \<Rightarrow> Inl e
           | Inr listings \<Rightarrow> Inr (concat (map (\<lambda>l. kept (fst (try_listing B l w'))) listings))))"
  by (simp add: extract_listing_data_def Let_def case_prod_beta for_listings_fst[where w'=w']
      split: sum.splits)

lemma extract_listing_data_prints: "prints_only w (snd (extract_listing_data B source w))"
proof (cases "BeautifulSoup B source ''html.parser''")
  case (Inl e1)
  then show ?thesis by (simp add: extract_listing_data_def prints_only_refl)
next
  case (Inr soup)
  show ?thesis
  proof (cases "select B soup listing_selector")
    case (Inl e1)
    then show ?thesis using Inr by (simp add: extract_listing_data_def prints_only_refl)
  next
    case sel: (Inr ls)
    define w1 where "w1 = print (''Found '' @ str_nat (length ls) @ '' listings on the page.'') w"
    have "prints_only w w1" unfolding w1_def by (rule prints_only_print)
    from prints_only_trans[OF this for_listings_prints[of w1 B ls "[]"]]
    show ?thesis
      by (simp add: extract_listing_data_def Inr sel Let_def case_prod_beta w1_def del: append.simps)
  qed
qed

lemma flat_a_record:
  "fst (try_listing (stub_bs4 ps) flat_a w) =
     Inr [(''Rooms'', ''3.5 rooms''), (''Size'', ''80 m2''), (''Price'', ''CHF 2000''),
          (''Address'', ''Basel'')]"
  by (simp add: try_listing_def extract_defs stub_simps flat_a_def sel_simps strip_def
      isspace_def Let_def)

lemma flat_b_record:
  "fst (try_listing (stub_bs4 ps) flat_b w) =
     Inr [(''Rooms'', ''2 rooms''), (''Size'', ''45 m2''), (''Price'', ''CHF 1200''),
          (''Address'', ''N/A'')]"
  by (simp add: try_listing_def extract_defs stub_simps flat_b_def sel_simps strip_def
      isspace_def Let_def)


lemma bare_record:
  "fst (try_listing (stub_bs4 ps) (leaf t) w) =
     Inr [(''Rooms'', ''N/A''), (''Size'', ''N/A''), (''Price'', ''N/A''), (''Address'', ''N/A'')]"
  by (simp add: try_listing_def extract_defs stub_simps Let_def)

subsection \<open>The placeholder of a missing field\<close>

text \<open>
  C1, as the code has it. When a listing yields a record, a field that none of its
  selectors finds has the value \<open>N/A\<close>: that, and not \<open>not available\<close>, is the
  placeholder the script writes. Rooms and size have two selectors each, price and address
  one.
\<close>

theorem missing_field_gets_NA:
  assumes "fst (try_listing B listing w) = Inr r"
  shows "(find_tag B listing ''strong'' rooms_cls = Inr None \<and>
          select_one B listing rooms_fallback = Inr None \<longrightarrow> map_of r ''Rooms'' = Some ''N/A'') \<and>
         (find_tag B listing ''strong'' size_cls = Inr None \<and>
          select_one B listing size_fallback = Inr None \<longrightarrow> map_of r ''Size'' = Some ''N/A'') \<and>
         (find_tag B listing ''span'' price_cls = Inr None \<longrightarrow> map_of r ''Price'' = Some ''N/A'') \<and>
         (find_tag B listing ''div'' address_cls = Inr None \<longrightarrow>
            map_of r ''Address'' = Some ''N/A'')"
proof -
  obtain rooms sz price address where
    f: "extract_rooms B listing = Inr rooms" "extract_size B listing = Inr sz"
       "extract_price B listing = Inr price" "extract_address B listing = Inr address"
    and r: "r = [(''Rooms'', rooms), (''Size'', sz), (''Price'', price), (''Address'', address)]"
    using assms unfolding try_listing_Inr by blast
  have "find_tag B listing ''strong'' rooms_cls = Inr None \<and>
        select_one B listing rooms_fallback = Inr None \<longrightarrow> rooms = ''N/A''"
    using f(1) by (auto simp: extract_rooms_def)
  moreover have "find_tag B listing ''strong'' size_cls = Inr None \<and>
        select_one B listing size_fallback = Inr None \<longrightarrow> sz = ''N/A''"
    using f(2) by (auto simp: extract_size_def)
  moreover have "find_tag B listing ''span'' price_cls = Inr None \<longrightarrow> price = ''N/A''"
    using f(3) by (auto simp: extract_price_def)
  moreover have "find_tag B listing ''div'' address_cls = Inr None \<longrightarrow> address = ''N/A''"
    using f(4) by (auto simp: extract_address_def)
  ultimately show ?thesis by (simp add: r)
qed

text \<open>In \<open>flat_b\<close> no selector finds the address; in a bare tag none finds anything.\<close>

theorem missing_field_gets_NA_witness:
  "find_tag (stub_bs4 []) flat_b ''div'' address_cls = Inr None \<and>
   map_of [(''Rooms'', ''2 rooms''), (''Size'', ''45 m2''), (''Price'', ''CHF 1200''),
           (''Address'', ''N/A'')] ''Address'' = Some ''N/A'' \<and>
   find_tag (stub_bs4 []) (leaf ''to let'') ''strong'' rooms_cls = Inr None \<and>
   select_one (stub_bs4 []) (leaf ''to let'') rooms_fallback = Inr None \<and>
   find_tag (stub_bs4 []) (leaf ''to let'') ''strong'' size_cls = Inr None \<and>
   select_one (stub_bs4 []) (leaf ''to let'') size_fallback = Inr None \<and>
   find_tag (stub_bs4 []) (leaf ''to let'') ''span'' price_cls = Inr None \<and>
   map_of [(''Rooms'', ''N/A''), (''Size'', ''N/A''), (''Price'', ''N/A''), (''Address'', ''N/A'')]
     ''Rooms'' = Some ''N/A''"
proof -
  have m: "find_tag (stub_bs4 []) flat_b ''div'' address_cls = Inr None"
    by (simp add: stub_simps flat_b_def sel_simps)
  have n: "find_tag (stub_bs4 []) (leaf ''to let'') ''strong'' rooms_cls = Inr None"
    "select_one (stub_bs4 []) (leaf ''to let'') rooms_fallback = Inr None"
    "find_tag (stub_bs4 []) (leaf ''to let'') ''strong'' size_cls = Inr None"
    "select_one (stub_bs4 []) (leaf ''to let'') size_fallback = Inr None"
    "find_tag (stub_bs4 []) (leaf ''to let'') ''span'' price_cls = Inr None"
    by (simp_all add: stub_simps)
  from missing_field_gets_NA[OF flat_b_record[of "[]" w0]]
       missing_field_gets_NA[OF bare_record[of "[]" "''to let''" w0]] m n
  show ?thesis by blast
qed

text \<open>
  Against C1 as the specification words it: in a listing where no selector finds
  anything the value of Rooms is \<open>N/A\<close>, which is not the string \<open>not available\<close>.
\<close>

theorem sentinel_not_available_counterexample:
  "find_tag (stub_bs4 []) (leaf '''') ''strong'' rooms_cls = Inr None \<and>
   select_one (stub_bs4 []) (leaf '''') rooms_fallback = Inr None \<and>
   fst (try_listing (stub_bs4 []) (leaf '''') w0) =
     Inr [(''Rooms'', ''N/A''), (''Size'', ''N/A''), (''Price'', ''N/A''), (''Address'', ''N/A'')] \<and>
   map_of [(''Rooms'', ''N/A''), (''Size'', ''N/A''), (''Price'', ''N/A''), (''Address'', ''N/A'')]
     ''Rooms'' \<noteq> Some ''not available''"
  by (simp add: try_listing_def extract_defs stub_simps Let_def)

subsection \<open>One tier or two\<close>

text \<open>
  C2, as the code has it. In a record that a listing yields, Rooms and Size follow the
  two-tier scheme (class selector, then fallback selector, then \<open>N/A\<close>), while Price and
  Address follow the one-tier scheme (class selector, then \<open>N/A\<close>): no second selector is
  tried for them.
\<close>

theorem tiers_of_the_four_fields:
  assumes "fst (try_listing B listing w) = Inr r"
  shows "\<exists>rooms sz price address.
           r = [(''Rooms'', rooms), (''Size'', sz), (''Price'', price), (''Address'', address)] \<and>
           two_tier B (find_tag B listing ''strong'' rooms_cls)
                      (select_one B listing rooms_fallback) rooms \<and>
           two_tier B (find_tag B listing ''strong'' size_cls)
                      (select_one B listing size_fallback) sz \<and>
           one_tier B (find_tag B listing ''span'' price_cls) price \<and>
           one_tier B (find_tag B listing ''div'' address_cls) address"
proof -
  obtain rooms sz price address where
    f: "extract_rooms B listing = Inr rooms" "extract_size B listing = Inr sz"
       "extract_price B listing = Inr price" "extract_address B listing = Inr address"
    and r: "r = [(''Rooms'', rooms), (''Size'', sz), (''Price'', price), (''Address'', address)]"
    using assms unfolding try_listing_Inr by blast
  have "two_tier B (find_tag B listing ''strong'' rooms_cls)
          (select_one B listing rooms_fallback) rooms"
    using f(1)
    by (auto simp: extract_rooms_def two_tier_def one_tier_def split: sum.splits option.splits)
  moreover have "two_tier B (find_tag B listing ''strong'' size_cls)
          (select_one B listing size_fallback) sz"
    using f(2)
    by (auto simp: extract_size_def two_tier_def one_tier_def split: sum.splits option.splits)
  moreover have "one_tier B (find_tag B listing ''span'' price_cls) price"
    using f(3) by (auto simp: extract_price_def one_tier_def split: sum.splits option.splits)
  moreover have "one_tier B (find_tag B listing ''div'' address_cls) address"
    using f(4) by (auto simp: extract_address_def one_tier_def split: sum.splits option.splits)
  ultimately show ?thesis using r by blast
qed

theorem tiers_of_the_four_fields_witness:
  "two_tier (stub_bs4 []) (find_tag (stub_bs4 []) flat_b ''strong'' rooms_cls)
     (select_one (stub_bs4 []) flat_b rooms_fallback) ''2 rooms'' \<and>
   two_tier (stub_bs4 []) (find_tag (stub_bs4 []) flat_b ''strong'' size_cls)
     (select_one (stub_bs4 []) flat_b size_fallback) ''45 m2'' \<and>
   one_tier (stub_bs4 []) (find_tag (stub_bs4 []) flat_b ''span'' price_cls) ''CHF 1200'' \<and>
   one_tier (stub_bs4 []) (find_tag (stub_bs4 []) flat_b ''div'' address_cls) ''N/A''"
  using tiers_of_the_four_fields[OF flat_b_record[of "[]" w0]] by simp

text \<open>
  Against C2 as the specification words it: with a parser in which every \<open>select_one\<close>
  finds a tag, and a listing in which no class selector finds one, Rooms and Size take the
  text of the second tier, but Price and Address are \<open>N/A\<close>.
\<close>

theorem price_address_two_tier_counterexample:
  "fst (try_listing eager_bs4 (leaf '''') w0) =
     Inr [(''Rooms'', ''CHF 1500''), (''Size'', ''CHF 1500''), (''Price'', ''N/A''),
          (''Address'', ''N/A'')]"
  by (simp add: try_listing_def extract_defs eager_bs4_def stub_simps strip_def isspace_def Let_def)

subsection \<open>The shape of a record\<close>

text \<open>
  C4. A record that a listing yields has exactly the keys Rooms, Size, Price and
  Address, in this order, and each value is a string: the placeholder, or the stripped
  text of the tag that one of the field's selectors found in the listing.
\<close>

theorem record_has_four_text_fields:
  assumes "fst (try_listing B listing w) = Inr r"
  shows "\<exists>rooms sz price address.
           r = [(''Rooms'', rooms), (''Size'', sz), (''Price'', price), (''Address'', address)] \<and>
           (rooms = ''N/A'' \<or> is_text_of B (find_tag B listing ''strong'' rooms_cls) rooms
              \<or> is_text_of B (select_one B listing rooms_fallback) rooms) \<and>
           (sz = ''N/A'' \<or> is_text_of B (find_tag B listing ''strong'' size_cls) sz
              \<or> is_text_of B (select_one B listing size_fallback) sz) \<and>
           (price = ''N/A'' \<or> is_text_of B (find_tag B listing ''span'' price_cls) price) \<and>
           (address = ''N/A'' \<or> is_text_of B (find_tag B listing ''div'' address_cls) address)"
proof -
  obtain rooms sz price address where
    f: "extract_rooms B listing = Inr rooms" "extract_size B listing = Inr sz"
       "extract_price B listing = Inr price" "extract_address B listing = Inr address"
    and r: "r = [(''Rooms'', rooms), (''Size'', sz), (''Price'', price), (''Address'', address)]"
    using assms unfolding try_listing_Inr by blast
  have "rooms = ''N/A'' \<or> is_text_of B (find_tag B listing ''strong'' rooms_cls) rooms
              \<or> is_text_of B (select_one B listing rooms_fallback) rooms"
    using f(1)
    by (auto simp: extract_rooms_def text_strip_def is_text_of_def split: sum.splits option.splits)
  moreover have "sz = ''N/A'' \<or> is_text_of B (find_tag B listing ''strong'' size_cls) sz
              \<or> is_text_of B (select_one B listing size_fallback) sz"
    using f(2)
    by (auto simp: extract_size_def text_strip_def is_text_of_def split: sum.splits option.splits)
  moreover have "price = ''N/A'' \<or> is_text_of B (find_tag B listing ''span'' price_cls) price"
    using f(3)
    by (auto simp: extract_price_def text_strip_def is_text_of_def split: sum.splits option.splits)
  moreover have "address = ''N/A'' \<or> is_text_of B (find_tag B listing ''div'' address_cls) address"
    using f(4)
    by (auto simp: extract_address_def text_strip_def is_text_of_def
        split: sum.splits option.splits)
  ultimately show ?thesis using r by blast
qed

theorem record_has_four_text_fields_witness:
  "\<exists>rooms sz price address.
      [(''Rooms'', ''2 rooms''), (''Size'', ''45 m2''), (''Price'', ''CHF 1200''),
       (''Address'', ''N/A'')]
        = [(''Rooms'', rooms), (''Size'', sz), (''Price'', price), (''Address'', address)] \<and>
      (price = ''N/A'' \<or>
       is_text_of (stub_bs4 []) (find_tag (stub_bs4 []) flat_b ''span'' price_cls) price) \<and>
      (address = ''N/A'' \<or>
       is_text_of (stub_bs4 []) (find_tag (stub_bs4 []) flat_b ''div'' address_cls) address)"
  using record_has_four_text_fields[OF flat_b_record[of "[]" w0]] by blast

subsection \<open>The first selector wins\<close>

text \<open>
  C8. In a record that a listing yields, a field whose class selector finds a tag has
  the stripped text of that tag as its value. The fallback selectors play no part then:
  when the class selectors of Rooms and Size both find a tag, the record is the same
  whatever \<open>select_one\<close> would return (\<open>other\<close> is any function put in its place).
\<close>

theorem primary_selector_preferred:
  assumes "fst (try_listing B listing w) = Inr r"
  shows "(find_tag B listing ''strong'' rooms_cls = Inr (Some t1) \<longrightarrow>
            (\<exists>v. map_of r ''Rooms'' = Some v \<and> text_strip B t1 = Inr v)) \<and>
         (find_tag B listing ''strong'' size_cls = Inr (Some t2) \<longrightarrow>
            (\<exists>v. map_of r ''Size'' = Some v \<and> text_strip B t2 = Inr v)) \<and>
         (find_tag B listing ''span'' price_cls = Inr (Some t3) \<longrightarrow>
            (\<exists>v. map_of r ''Price'' = Some v \<and> text_strip B t3 = Inr v)) \<and>
         (find_tag B listing ''div'' address_cls = Inr (Some t4) \<longrightarrow>
            (\<exists>v. map_of r ''Address'' = Some v \<and> text_strip B t4 = Inr v)) \<and>
         (find_tag B listing ''strong'' rooms_cls = Inr (Some t1) \<and>
          find_tag B listing ''strong'' size_cls = Inr (Some t2) \<longrightarrow>
            fst (try_listing (B\<lparr>select_one := other\<rparr>) listing w) = Inr r)"
proof -
  obtain rooms sz price address where
    f: "extract_rooms B listing = Inr rooms" "extract_size B listing = Inr sz"
       "extract_price B listing = Inr price" "extract_address B listing = Inr address"
    and r: "r = [(''Rooms'', rooms), (''Size'', sz), (''Price'', price), (''Address'', address)]"
    using assms unfolding try_listing_Inr by blast
  have 1: "find_tag B listing ''strong'' rooms_cls = Inr (Some t1) \<longrightarrow> text_strip B t1 = Inr rooms"
    using f(1) by (auto simp: extract_rooms_def)
  have 2: "find_tag B listing ''strong'' size_cls = Inr (Some t2) \<longrightarrow> text_strip B t2 = Inr sz"
    using f(2) by (auto simp: extract_size_def)
  have 3: "find_tag B listing ''span'' price_cls = Inr (Some t3) \<longrightarrow> text_strip B t3 = Inr price"
    using f(3) by (auto simp: extract_price_def split: sum.splits option.splits)
  have 4: "find_tag B listing ''div'' address_cls = Inr (Some t4) \<longrightarrow> text_strip B t4 = Inr address"
    using f(4) by (auto simp: extract_address_def split: sum.splits option.splits)
  have 5: "find_tag B listing ''strong'' rooms_cls = Inr (Some t1) \<and>
          find_tag B listing ''strong'' size_cls = Inr (Some t2) \<longrightarrow>
            fst (try_listing (B\<lparr>select_one := other\<rparr>) listing w) = Inr r"
  proof
    assume a: "find_tag B listing ''strong'' rooms_cls = Inr (Some t1) \<and>
          find_tag B listing ''strong'' size_cls = Inr (Some t2)"
    have "extract_rooms (B\<lparr>select_one := other\<rparr>) listing = Inr rooms"
      using a f(1) by (simp add: extract_rooms_def text_strip_def)
    moreover have "extract_size (B\<lparr>select_one := other\<rparr>) listing = Inr sz"
      using a f(2) by (simp add: extract_size_def text_strip_def)
    moreover have "extract_price (B\<lparr>select_one := other\<rparr>) listing = Inr price"
      using f(3) by (auto simp: extract_price_def text_strip_def split: sum.splits option.splits)
    moreover have "extract_address (B\<lparr>select_one := other\<rparr>) listing = Inr address"
      using f(4) by (auto simp: extract_address_def text_strip_def split: sum.splits option.splits)
    ultimately show "fst (try_listing (B\<lparr>select_one := other\<rparr>) listing w) = Inr r"
      unfolding try_listing_Inr using r by blast
  qed
  from 1 2 3 4 5 show ?thesis by (simp add: r)
qed

text \<open>
  In \<open>flat_a\<close> both selectors of Rooms find a tag, with different texts; the record
  has the text of the first.
\<close>

theorem primary_selector_preferred_witness:
  "find_tag (stub_bs4 []) flat_a ''strong'' rooms_cls = Inr (Some (leaf '' 3.5 rooms '')) \<and>
   select_one (stub_bs4 []) flat_a rooms_fallback = Inr (Some (leaf ''9 rooms'')) \<and>
   (\<exists>v. map_of [(''Rooms'', ''3.5 rooms''), (''Size'', ''80 m2''), (''Price'', ''CHF 2000''),
          (''Address'', ''Basel'')] ''Rooms'' = Some v \<and>
        text_strip (stub_bs4 []) (leaf '' 3.5 rooms '') = Inr v) \<and>
   fst (try_listing ((stub_bs4 [])\<lparr>select_one := select_one eager_bs4\<rparr>) flat_a w0) =
     Inr [(''Rooms'', ''3.5 rooms''), (''Size'', ''80 m2''), (''Price'', ''CHF 2000''),
          (''Address'', ''Basel'')]"
proof -
  have p: "find_tag (stub_bs4 []) flat_a ''strong'' rooms_cls = Inr (Some (leaf '' 3.5 rooms ''))"
    "find_tag (stub_bs4 []) flat_a ''strong'' size_cls = Inr (Some (leaf ''80 m2''))"
    by (simp_all add: stub_simps flat_a_def sel_simps)
  have s: "select_one (stub_bs4 []) flat_a rooms_fallback = Inr (Some (leaf ''9 rooms''))"
    by (simp add: stub_simps flat_a_def sel_simps)
  from primary_selector_preferred[OF flat_a_record[of "[]" w0],
         of "leaf '' 3.5 rooms ''" "leaf ''80 m2''" _ _ "select_one eager_bs4"] p s
  show ?thesis by blast
qed

subsection \<open>A failure stays local\<close>



subsection \<open>The extractor and the global list\<close>

text \<open>
  C10. The records that \<open>extract_listing_data\<close> returns for a page source do not depend
  on the state it is called in (on \<open>all_data\<close>, on the session, on what ran before), and
  the call leaves \<open>all_data\<close> as it was. A page in which no listing is selected gives the
  empty list, not an exception.
\<close>

theorem extractor_self_contained:
  "fst (extract_listing_data B source w) = fst (extract_listing_data B source w') \<and>
   all_data (snd (extract_listing_data B source w)) = all_data w \<and>
   (BeautifulSoup B source ''html.parser'' = Inr soup \<and> select B soup listing_selector = Inr []
      \<longrightarrow> fst (extract_listing_data B source w) = Inr [])"
proof (intro conjI impI)
  show "fst (extract_listing_data B source w) = fst (extract_listing_data B source w')"
    by (simp add: extract_listing_data_fst[of B source w w0] extract_listing_data_fst[of B source w' w0])
  show "all_data (snd (extract_listing_data B source w)) = all_data w"
    using extract_listing_data_prints[of w B source] by (simp add: prints_only_def)
  assume "BeautifulSoup B source ''html.parser'' = Inr soup \<and> select B soup listing_selector = Inr []"
  then show "fst (extract_listing_data B source w) = Inr []"
    by (simp add: extract_listing_data_fst[of B source w w0])
qed

theorem extractor_self_contained_witness:
  "BeautifulSoup (stub_bs4 two_pages) ''page 3'' ''html.parser'' = Inr (Tag [] (Inr ''page 3'')) \<and>
   select (stub_bs4 two_pages) (Tag [] (Inr ''page 3'')) listing_selector = Inr [] \<and>
   fst (extract_listing_data (stub_bs4 two_pages) ''page 3'' w0) = Inr []"
proof -
  have s: "BeautifulSoup (stub_bs4 two_pages) ''page 3'' ''html.parser''
             = Inr (Tag [] (Inr ''page 3''))"
    by (simp add: stub_bs4_def two_pages_def)
  have l: "select (stub_bs4 two_pages) (Tag [] (Inr ''page 3'')) listing_selector = Inr []"
    by (simp add: stub_bs4_def matches_def)
  from extractor_self_contained[of "stub_bs4 two_pages" "''page 3''" w0 w0 "Tag [] (Inr ''page 3'')"] s l
  show ?thesis by blast
qed

section \<open>Properties of the pagination loop and of the run\<close>

subsection \<open>What each part of the script does to the state\<close>

lemma stays_open_refl: "stays_open w w"
  unfolding stays_open_def by (simp add: exI[of _ "[]"])

lemma stays_open_trans: "stays_open w w1 \<Longrightarrow> stays_open w1 w2 \<Longrightarrow> stays_open w w2"
  unfolding stays_open_def
proof (elim exE conjE)
  fix e1 e2
  assume a: "trace w1 = trace w @ e1" "\<forall>ev\<in>set e1. \<not> closing ev"
    "trace w2 = trace w1 @ e2" "\<forall>ev\<in>set e2. \<not> closing ev"
  then have "trace w2 = trace w @ (e1 @ e2) \<and> (\<forall>ev\<in>set (e1 @ e2). \<not> closing ev)" by auto
  then show "\<exists>evs. trace w2 = trace w @ evs \<and> (\<forall>ev\<in>set evs. \<not> closing ev)" by blast
qed

lemma prints_only_stays_open: "prints_only w w' \<Longrightarrow> stays_open w w'"
  unfolding prints_only_def stays_open_def by auto

lemma print_stays_open: "stays_open w (print l w)"
  by (rule prints_only_stays_open) (rule prints_only_print)

lemma call_stays_open: "\<not> closing ev \<Longrightarrow> stays_open w (snd (call ev op w))"
  unfolding stays_open_def call_def by (simp add: case_prod_beta)

lemma call_all_data [simp]: "all_data (snd (call ev op w)) = all_data w"
  by (simp add: call_def case_prod_beta)

lemma call_trace [simp]: "trace (snd (call ev op w)) = trace w @ [ev]"
  by (simp add: call_def case_prod_beta)

lemma accept_cookie_banner_stays_open: "stays_open w (accept_cookie_banner W w)"
proof -
  let ?c1 = "call (UntilClickable ID ''onetrust-accept-btn-handler'')
               (until_clickable W 10 ID ''onetrust-accept-btn-handler'') w"
  obtain r1 w1 where c1: "?c1 = (r1, w1)" by (cases ?c1)
  have s1: "stays_open w w1"
    using call_stays_open[of "UntilClickable ID ''onetrust-accept-btn-handler''" w
        "until_clickable W 10 ID ''onetrust-accept-btn-handler''"] c1 by simp
  show ?thesis
  proof (cases r1)
    case (Inl e)
    then show ?thesis
      using stays_open_trans[OF s1 print_stays_open] c1
      by (simp add: accept_cookie_banner_def del: append.simps)
  next
    case (Inr button)
    obtain r2 w2 where c2: "call Click (click W button) w1 = (r2, w2)"
      by (cases "call Click (click W button) w1")
    have s2: "stays_open w w2"
      using stays_open_trans[OF s1 call_stays_open[of Click w1 "click W button"]] c2 by simp
    show ?thesis
    proof (cases r2)
      case (Inl e)
      then show ?thesis
        using stays_open_trans[OF s2 print_stays_open] c1 c2 Inr
        by (simp add: accept_cookie_banner_def del: append.simps)
    next
      case (Inr u)
      then show ?thesis
        using s2 c1 c2 \<open>r1 = Inr button\<close> by (simp add: accept_cookie_banner_def)
    qed
  qed
qed

lemma accept_cookie_banner_all_data [simp]:
  "all_data (accept_cookie_banner W w) = all_data w"
proof -
  have a: "all_data w1 = all_data w" if "call ev op w = (r, w1)" for ev r w1
    and op :: "'a \<Rightarrow> (exn + 'c) \<times> 'a"
    using call_all_data[of ev op w] that by simp
  have b: "all_data w2 = all_data w1" if "call ev op w1 = (r, w2)" for ev r w1 w2
    and op :: "'a \<Rightarrow> (exn + unit) \<times> 'a"
    using call_all_data[of ev op w1] that by simp
  show ?thesis
    by (auto simp: accept_cookie_banner_def split: prod.splits sum.splits dest!: a b)
qed

lemma startup_fresh:
  assumes "startup W d0 = (r, w)"
  shows "all_data w = [] \<and> (\<forall>ev\<in>set (trace w). \<not> closing ev)"
proof -
  let ?i = "\<lparr>driver = d0, all_data = [], trace = []\<rparr>"
  obtain r1 w1 where c1: "call (Get url) (get W url) ?i = (r1, w1)"
    by (cases "call (Get url) (get W url) ?i")
  have t1: "all_data w1 = []" "trace w1 = [Get url]"
    using call_all_data[of "Get url" "get W url" ?i] call_trace[of "Get url" "get W url" ?i] c1
    by simp_all
  show ?thesis
  proof (cases r1)
    case (Inl e)
    then show ?thesis using assms c1 t1 by (auto simp: startup_def)
  next
    case (Inr u)
    obtain r2 w2 where c2: "call MaximizeWindow (maximize_window W) w1 = (r2, w2)"
      by (cases "call MaximizeWindow (maximize_window W) w1")
    have t2: "all_data w2 = []" "trace w2 = [Get url, MaximizeWindow]"
      using call_all_data[of MaximizeWindow "maximize_window W" w1]
        call_trace[of MaximizeWindow "maximize_window W" w1] c2 t1
      by simp_all
    show ?thesis
    proof (cases r2)
      case (Inl e)
      then show ?thesis using assms c1 c2 t2 Inr by (auto simp: startup_def)
    next
      case r2: (Inr u2)
      have w: "w = accept_cookie_banner W w2"
        using assms c1 c2 Inr r2 by (simp add: startup_def)
      obtain evs where "trace w = trace w2 @ evs" "\<forall>ev\<in>set evs. \<not> closing ev"
        using accept_cookie_banner_stays_open[of w2 W] w unfolding stays_open_def by blast
      then show ?thesis using t2 w by auto
    qed
  qed
qed

lemma scrape_stays_open:
  "stays_open w (snd (scrape_data_from_page W B w))"
proof -
  obtain r1 w1 where c1: "call PageSource (page_source W) w = (r1, w1)"
    by (cases "call PageSource (page_source W) w")
  have s1: "stays_open w w1"
    using call_stays_open[of PageSource w "page_source W"] c1 by simp
  show ?thesis
  proof (cases r1)
    case (Inl e)
    then show ?thesis using s1 c1 by (simp add: scrape_data_from_page_def)
  next
    case (Inr source)
    obtain r2 w2 where c2: "extract_listing_data B source w1 = (r2, w2)"
      by (cases "extract_listing_data B source w1")
    have s2: "stays_open w w2"
      using stays_open_trans[OF s1 prints_only_stays_open[OF extract_listing_data_prints[of w1 B source]]]
        c2 by simp
    then have "stays_open w (w2\<lparr>all_data := all_data w2 @ x\<rparr>)" for x
      by (simp add: stays_open_def)
    then show ?thesis using s2 c1 c2 Inr
      by (cases r2) (simp_all add: scrape_data_from_page_def)
  qed
qed

lemma scrape_all_data:
  assumes "scrape_data_from_page W B w = (Inr u, w1)"
  shows "all_data w1 = all_data w @ page_records W B w"
proof -
  obtain r1 wa where c1: "call PageSource (page_source W) w = (r1, wa)"
    by (cases "call PageSource (page_source W) w")
  have a1: "all_data wa = all_data w"
    using call_all_data[of PageSource "page_source W" w] c1 by simp
  show ?thesis
  proof (cases r1)
    case (Inl e)
    then show ?thesis using assms c1 by (simp add: scrape_data_from_page_def)
  next
    case (Inr source)
    obtain r2 wb where c2: "extract_listing_data B source wa = (r2, wb)"
      by (cases "extract_listing_data B source wa")
    have a2: "all_data wb = all_data w"
      using extract_listing_data_prints[of wa B source] c2 a1 by (simp add: prints_only_def)
    show ?thesis
    proof (cases r2)
      case (Inl e)
      then show ?thesis using assms c1 c2 Inr by (simp add: scrape_data_from_page_def)
    next
      case rs: (Inr rs)
      then show ?thesis using assms c1 c2 Inr a2
        by (auto simp: scrape_data_from_page_def page_records_def)
    qed
  qed
qed

lemma call_step:
  "stays_open w wa \<Longrightarrow> call ev op wa = (r, wb) \<Longrightarrow> \<not> closing ev \<Longrightarrow> stays_open w wb"
  using stays_open_trans[OF _ call_stays_open[of ev wa op]] by simp

lemma call_keeps: "call ev op wa = (r, wb) \<Longrightarrow> all_data wb = all_data wa"
  using call_all_data[of ev op wa] by simp

lemma try_next_page_stays_open: "stays_open w (snd (try_next_page W w))"
proof -
  let ?c1 = "call (ExecuteScript scroll_script) (execute_script W scroll_script) w"
  obtain r1 w1 where c1: "?c1 = (r1, w1)" by (cases ?c1)
  have s1: "stays_open w w1" using call_step[OF stays_open_refl c1] by simp
  show ?thesis
  proof (cases r1)
    case (Inl e)
    then show ?thesis using s1 c1 by (simp add: try_next_page_def)
  next
    case r1: (Inr u1)
    let ?c2 = "call (UntilClickable CSS_SELECTOR next_selector)
                 (until_clickable W 10 CSS_SELECTOR next_selector) w1"
    obtain r2 w2 where c2: "?c2 = (r2, w2)" by (cases ?c2)
    have s2: "stays_open w w2" using call_step[OF s1 c2] by simp
    show ?thesis
    proof (cases r2)
      case (Inl e)
      then show ?thesis using s2 c1 c2 r1 by (simp add: try_next_page_def)
    next
      case r2: (Inr next_button)
      obtain r3 w3 where c3: "call Click (click W next_button) w2 = (r3, w3)"
        by (cases "call Click (click W next_button) w2")
      have s3: "stays_open w w3" using call_step[OF s2 c3] by simp
      show ?thesis
      proof (cases r3)
        case (Inl e)
        then show ?thesis using s3 c1 c2 c3 r1 r2 by (simp add: try_next_page_def)
      next
        case r3: (Inr u3)
        let ?c4 = "call (UntilPresent CSS_SELECTOR item_selector)
                     (until_present W 10 CSS_SELECTOR item_selector) w3"
        obtain r4 w4 where c4: "?c4 = (r4, w4)" by (cases ?c4)
        have s4: "stays_open w w4" using call_step[OF s3 c4] by simp
        show ?thesis using s4 c1 c2 c3 c4 r1 r2 r3
          by (cases r4) (simp_all add: try_next_page_def)
      qed
    qed
  qed
qed

lemma try_next_page_all_data [simp]: "all_data (snd (try_next_page W w)) = all_data w"
  unfolding try_next_page_def
  by (auto split: prod.splits sum.splits dest!: call_keeps)

subsection \<open>The loop, turn by turn\<close>

lemma loop_continue:
  "scrape_data_from_page W B w = (Inr u, w1) \<Longrightarrow> try_next_page W w1 = (Inr u', w2) \<Longrightarrow>
     pagination_loop W B w = pagination_loop W B w2"
  by (subst pagination_loop.simps) simp

lemma loop_timeout:
  "scrape_data_from_page W B w = (Inr u, w1) \<Longrightarrow>
   try_next_page W w1 = (Inl (TimeoutException m), w2) \<Longrightarrow>
     pagination_loop W B w = Some (Inr (), print ''Reached the last page.'' w2)"
  by (subst pagination_loop.simps) simp

lemma loop_other:
  "scrape_data_from_page W B w = (Inr u, w1) \<Longrightarrow>
   try_next_page W w1 = (Inl (OtherException m), w2) \<Longrightarrow>
     pagination_loop W B w = Some (Inl (OtherException m), w2)"
  by (subst pagination_loop.simps) simp

lemma loop_scrape_raises:
  "scrape_data_from_page W B w = (Inl e, w1) \<Longrightarrow> pagination_loop W B w = Some (Inl e, w1)"
  by (subst pagination_loop.simps) simp

lemma after_pages_loop:
  "after_pages W B n w = Some wn \<Longrightarrow> pagination_loop W B w = pagination_loop W B wn"
proof (induction n arbitrary: w)
  case 0
  then show ?case by simp
next
  case (Suc n)
  obtain r1 w1 where s: "scrape_data_from_page W B w = (r1, w1)"
    by (cases "scrape_data_from_page W B w")
  obtain r2 w2 where t: "try_next_page W w1 = (r2, w2)"
    by (cases "try_next_page W w1")
  from Suc.prems s t obtain u u' where r: "r1 = Inr u" "r2 = Inr u'"
    by (cases r1; cases r2) simp_all
  from Suc.prems s t r have "after_pages W B n w2 = Some wn" by simp
  then have "pagination_loop W B w2 = pagination_loop W B wn" by (rule Suc.IH)
  then show ?case using loop_continue[of W B w u w1 u' w2] s t r by simp
qed

lemma after_pages_all_data:
  "after_pages W B n w = Some wn \<Longrightarrow>
     all_data wn @ page_records W B wn = all_data w @ concat (visited W B n w)"
proof (induction n arbitrary: w)
  case 0
  then show ?case by simp
next
  case (Suc n)
  obtain r1 w1 where s: "scrape_data_from_page W B w = (r1, w1)"
    by (cases "scrape_data_from_page W B w")
  obtain r2 w2 where t: "try_next_page W w1 = (r2, w2)"
    by (cases "try_next_page W w1")
  from Suc.prems s t obtain u u' where r: "r1 = Inr u" "r2 = Inr u'"
    by (cases r1; cases r2) simp_all
  from Suc.prems s t r have a: "after_pages W B n w2 = Some wn" by simp
  have d: "all_data w2 = all_data w @ page_records W B w"
    using scrape_all_data[of W B w u w1] try_next_page_all_data[of W w1] s t r by simp
  show ?case using Suc.IH[OF a] d s t r by simp
qed

lemma after_pages_stays_open:
  "after_pages W B n w = Some wn \<Longrightarrow> stays_open w wn"
proof (induction n arbitrary: w)
  case 0
  then show ?case by (simp add: stays_open_refl)
next
  case (Suc n)
  obtain r1 w1 where s: "scrape_data_from_page W B w = (r1, w1)"
    by (cases "scrape_data_from_page W B w")
  obtain r2 w2 where t: "try_next_page W w1 = (r2, w2)"
    by (cases "try_next_page W w1")
  from Suc.prems s t obtain u u' where r: "r1 = Inr u" "r2 = Inr u'"
    by (cases r1; cases r2) simp_all
  from Suc.prems s t r have a: "after_pages W B n w2 = Some wn" by simp
  have "stays_open w w1" using scrape_stays_open[of w W B] s by simp
  moreover have "stays_open w1 w2" using try_next_page_stays_open[of w1 W] t by simp
  ultimately show ?case using Suc.IH[OF a] stays_open_trans by blast
qed

lemma visited_length: "after_pages W B n w = Some wn \<Longrightarrow> length (visited W B n w) = Suc n"
proof (induction n arbitrary: w)
  case 0
  then show ?case by simp
next
  case (Suc n)
  obtain r1 w1 where s: "scrape_data_from_page W B w = (r1, w1)"
    by (cases "scrape_data_from_page W B w")
  obtain r2 w2 where t: "try_next_page W w1 = (r2, w2)"
    by (cases "try_next_page W w1")
  from Suc.prems s t obtain u u' where r: "r1 = Inr u" "r2 = Inr u'"
    by (cases r1; cases r2) simp_all
  from Suc.prems s t r have a: "after_pages W B n w2 = Some wn" by simp
  show ?case using Suc.IH[OF a] s t r by simp
qed

text \<open>Whatever the loop returns, it has neither closed the session nor written a file.\<close>

lemma loop_stays_open:
  assumes "pagination_loop W B w = Some res"
  shows "stays_open w (snd res)"
proof (rule pagination_loop.raw_induct[where P = "\<lambda>W B w res. stays_open w (snd res)",
         OF _ assms], goal_cases)
  case (1 loop W B w res)
  obtain r1 w1 where s: "scrape_data_from_page W B w = (r1, w1)"
    by (cases "scrape_data_from_page W B w")
  have o1: "stays_open w w1" using scrape_stays_open[of w W B] s by simp
  show ?case
  proof (cases r1)
    case (Inl e)
    then show ?thesis using 1(2) s o1 by auto
  next
    case r1: (Inr u)
    obtain r2 w2 where t: "try_next_page W w1 = (r2, w2)"
      by (cases "try_next_page W w1")
    have o2: "stays_open w w2"
      using stays_open_trans[OF o1] try_next_page_stays_open[of w1 W] t by simp
    show ?thesis
    proof (cases r2)
      case (Inl e)
      show ?thesis
      proof (cases e)
        case (TimeoutException m)
        then show ?thesis
          using 1(2) s t r1 Inl stays_open_trans[OF o2 print_stays_open] by auto
      next
        case (OtherException m)
        then show ?thesis using 1(2) s t r1 Inl o2 by auto
      qed
    next
      case (Inr u')
      then have "loop W B w2 = Some res" using 1(2) s t r1 by simp
      then have "stays_open w2 (snd res)" by (rule 1(1))
      then show ?thesis using stays_open_trans[OF o2] by simp
    qed
  qed
qed

text \<open>Every record that reaches \<open>all_data\<close> has the four keys.\<close>

lemma kept_keys:
  "r \<in> set (concat (map (\<lambda>l. kept (fst (try_listing B l w))) ls)) \<Longrightarrow>
     map fst r = [''Rooms'', ''Size'', ''Price'', ''Address'']"
proof -
  assume "r \<in> set (concat (map (\<lambda>l. kept (fst (try_listing B l w))) ls))"
  then obtain l where "r \<in> set (kept (fst (try_listing B l w)))" by auto
  then have "fst (try_listing B l w) = Inr r"
    by (cases "fst (try_listing B l w)") (simp_all add: kept_def)
  then show ?thesis unfolding try_listing_Inr by auto
qed

lemma page_records_keys:
  "r \<in> set (page_records W B w) \<Longrightarrow> map fst r = [''Rooms'', ''Size'', ''Price'', ''Address'']"
proof -
  assume a: "r \<in> set (page_records W B w)"
  obtain r1 w1 where c: "call PageSource (page_source W) w = (r1, w1)"
    by (cases "call PageSource (page_source W) w")
  show ?thesis
  proof (cases r1)
    case (Inl e)
    then show ?thesis using a c by (simp add: page_records_def)
  next
    case (Inr source)
    then have "fst (extract_listing_data B source w1) = Inr rs \<Longrightarrow> r \<in> set rs \<Longrightarrow> ?thesis" for rs
      using kept_keys[of r B w1]
      by (auto simp: extract_listing_data_fst[of B source w1 w1] split: sum.splits)
    then show ?thesis using a c Inr
      by (cases "fst (extract_listing_data B source w1)") (simp_all add: page_records_def)
  qed
qed

lemma scrape_keyed:
  assumes "keyed w" shows "keyed (snd (scrape_data_from_page W B w))"
proof -
  obtain r1 w1 where s: "scrape_data_from_page W B w = (r1, w1)"
    by (cases "scrape_data_from_page W B w")
  show ?thesis
  proof (cases r1)
    case (Inr u)
    then show ?thesis
      using scrape_all_data[of W B w u w1] s assms page_records_keys[of _ W B w]
      by (auto simp: keyed_def)
  next
    case (Inl e)
    obtain ra wa where c: "call PageSource (page_source W) w = (ra, wa)"
      by (cases "call PageSource (page_source W) w")
    have a1: "all_data wa = all_data w" using call_keeps[OF c] .
    have "all_data w1 = all_data w"
    proof (cases ra)
      case (Inl e')
      then show ?thesis using s c a1 by (simp add: scrape_data_from_page_def)
    next
      case (Inr source)
      obtain rb wb where x: "extract_listing_data B source wa = (rb, wb)"
        by (cases "extract_listing_data B source wa")
      have "all_data wb = all_data w"
        using extract_listing_data_prints[of wa B source] x a1 by (simp add: prints_only_def)
      then show ?thesis using s c x Inr Inl
        by (cases rb) (auto simp: scrape_data_from_page_def)
    qed
    then show ?thesis using s assms by (simp add: keyed_def)
  qed
qed

lemma loop_keyed:
  assumes "pagination_loop W B w = Some res"
  shows "keyed w \<longrightarrow> keyed (snd res)"
proof (rule pagination_loop.raw_induct[where P = "\<lambda>W B w res. keyed w \<longrightarrow> keyed (snd res)",
         OF _ assms], goal_cases)
  case (1 loop W B w res)
  show ?case
  proof
    assume k: "keyed w"
    obtain r1 w1 where s: "scrape_data_from_page W B w = (r1, w1)"
      by (cases "scrape_data_from_page W B w")
    have k1: "keyed w1" using scrape_keyed[OF k, of W B] s by simp
    show "keyed (snd res)"
    proof (cases r1)
      case (Inl e)
      then show ?thesis using 1(2) s k1 by auto
    next
      case r1: (Inr u)
      obtain r2 w2 where t: "try_next_page W w1 = (r2, w2)"
        by (cases "try_next_page W w1")
      have k2: "keyed w2"
        using k1 try_next_page_all_data[of W w1] t by (simp add: keyed_def)
      show ?thesis
      proof (cases r2)
        case (Inl e)
        then show ?thesis using 1(2) s t r1 k2 by (cases e) (auto simp: keyed_def)
      next
        case (Inr u')
        then have "loop W B w2 = Some res" using 1(2) s t r1 by simp
        then show ?thesis using 1(1) k2 by blast
      qed
    qed
  qed
qed

subsection \<open>The example site, run by hand\<close>

lemmas run_simps = scrape_data_from_page_def try_next_page_def call_def stub_driver_def
  extract_listing_data_def try_listing_def extract_defs stub_simps two_pages_def sel_simps
  flat_a_def flat_b_def broken_def strip_def isspace_def Let_def print_def
  scroll_script_def next_selector_def item_selector_def page_records_def site_def

lemmas main_simps = main_def startup_def shutdown_def accept_cookie_banner_def to_csv_def
  DataFrame_def csv_rows_def report_def closing_events_def url_def csv_path_def
  scroll_fails_def

lemma str_nat_digits [simp]:
  "str_nat 0 = ''0''" "str_nat 1 = ''1''" "str_nat 2 = ''2''" "str_nat 3 = ''3''"
  "str_nat (Suc 0) = ''1''" "str_nat (Suc (Suc 0)) = ''2''"
  by code_simp+

lemma site_turns:
  "\<exists>wn w1 w2 w3.
     after_pages stub_driver (stub_bs4 two_pages) 1 site = Some wn \<and>
     scrape_data_from_page stub_driver (stub_bs4 two_pages) wn = (Inr (), w1) \<and>
     call (ExecuteScript scroll_script) (execute_script stub_driver scroll_script) w1
       = (Inr (), w2) \<and>
     call (UntilClickable CSS_SELECTOR next_selector)
       (until_clickable stub_driver 10 CSS_SELECTOR next_selector) w2
       = (Inl (TimeoutException ''Message: ''), w3)"
  by (simp add: run_simps)

lemma site_visited:
  "visited stub_driver (stub_bs4 two_pages) 1 site =
     [[[(''Rooms'', ''3.5 rooms''), (''Size'', ''80 m2''), (''Price'', ''CHF 2000''),
        (''Address'', ''Basel'')],
       [(''Rooms'', ''2 rooms''), (''Size'', ''45 m2''), (''Price'', ''CHF 1200''),
        (''Address'', ''N/A'')]],
      [[(''Rooms'', ''2 rooms''), (''Size'', ''45 m2''), (''Price'', ''CHF 1200''),
        (''Address'', ''N/A'')]]]"
  by (simp add: run_simps)

subsection \<open>The end of the pagination\<close>

text \<open>
  C6. Let the loop have made \<open>n\<close> full turns from \<open>w\<close>, and in the next turn let the page
  be scraped, the scroll succeed and the wait for the next-page control time out. Then the
  loop returns, and returns normally: the timeout is the loop's exit, reported as the last
  page. The global list is then what it was at the start followed by the records of the
  \<open>n + 1\<close> pages visited, page after page, so that its length has grown by the sum of the
  numbers of records extracted per page.
\<close>

theorem loop_ends_at_timeout:
  assumes "after_pages W B n w = Some wn"
    and "scrape_data_from_page W B wn = (Inr u, w1)"
    and "call (ExecuteScript scroll_script) (execute_script W scroll_script) w1 = (Inr u', w2)"
    and "call (UntilClickable CSS_SELECTOR next_selector)
           (until_clickable W 10 CSS_SELECTOR next_selector) w2
           = (Inl (TimeoutException m), w3)"
  shows "pagination_loop W B w = Some (Inr (), print ''Reached the last page.'' w3) \<and>
         all_data (print ''Reached the last page.'' w3) = all_data w @ concat (visited W B n w) \<and>
         length (visited W B n w) = Suc n \<and>
         length (all_data (print ''Reached the last page.'' w3)) =
           length (all_data w) + sum_list (map length (visited W B n w))"
proof -
  have t: "try_next_page W w1 = (Inl (TimeoutException m), w3)"
    using assms(3,4) by (simp add: try_next_page_def)
  have "pagination_loop W B wn = Some (Inr (), print ''Reached the last page.'' w3)"
    using assms(2) t by (rule loop_timeout)
  then have 1: "pagination_loop W B w = Some (Inr (), print ''Reached the last page.'' w3)"
    using after_pages_loop[OF assms(1)] by simp
  have "all_data w3 = all_data w1"
    using call_keeps[OF assms(3)] call_keeps[OF assms(4)] by simp
  then have "all_data w3 = all_data wn @ page_records W B wn"
    using scrape_all_data[OF assms(2)] by simp
  then have 2: "all_data (print ''Reached the last page.'' w3) = all_data w @ concat (visited W B n w)"
    using after_pages_all_data[OF assms(1)] by simp
  have 3: "length (visited W B n w) = Suc n"
    using assms(1) by (rule visited_length)
  have 4: "length (all_data (print ''Reached the last page.'' w3)) =
             length (all_data w) + sum_list (map length (visited W B n w))"
    unfolding 2 by (simp add: length_concat)
  from 1 2 3 4 show ?thesis by blast
qed

text \<open>
  On the example site the timeout comes on the second page: the loop returns with the
  two records of the first page and the one of the second.
\<close>

theorem loop_ends_at_timeout_witness:
  "\<exists>wf. pagination_loop stub_driver (stub_bs4 two_pages) site = Some (Inr (), wf) \<and>
        length (all_data wf) = 3 \<and>
        all_data wf =
          [[(''Rooms'', ''3.5 rooms''), (''Size'', ''80 m2''), (''Price'', ''CHF 2000''),
            (''Address'', ''Basel'')],
           [(''Rooms'', ''2 rooms''), (''Size'', ''45 m2''), (''Price'', ''CHF 1200''),
            (''Address'', ''N/A'')],
           [(''Rooms'', ''2 rooms''), (''Size'', ''45 m2''), (''Price'', ''CHF 1200''),
            (''Address'', ''N/A'')]]"
proof -
  obtain wn w1 w2 w3 where
    h: "after_pages stub_driver (stub_bs4 two_pages) 1 site = Some wn"
       "scrape_data_from_page stub_driver (stub_bs4 two_pages) wn = (Inr (), w1)"
       "call (ExecuteScript scroll_script) (execute_script stub_driver scroll_script) w1
          = (Inr (), w2)"
       "call (UntilClickable CSS_SELECTOR next_selector)
          (until_clickable stub_driver 10 CSS_SELECTOR next_selector) w2
          = (Inl (TimeoutException ''Message: ''), w3)"
    using site_turns by blast
  have s: "all_data site = []" by (simp add: site_def)
  from loop_ends_at_timeout[OF h] show ?thesis
    unfolding site_visited s by simp
qed

subsection \<open>The run after the loop\<close>

lemma shutdown_Completed:
  assumes "call Quit (quit W) w = (Inr u, w1)"
  shows "shutdown W w =
           (Completed, print completion_message (to_csv (DataFrame (all_data w)) csv_path True w1))"
    and "trace (snd (shutdown W w)) =
           trace w @ [Quit, ToCsv csv_path (csv_rows (DataFrame (all_data w)) True),
                      Print completion_message]"
    and "all_data (snd (shutdown W w)) = all_data w"
  using assms call_keeps[OF assms] call_trace[of Quit "quit W" w]
  by (simp_all add: shutdown_def completion_message_def to_csv_def)

lemma shutdown_cases:
  "shutdown W w = (Completed, w') \<Longrightarrow> \<exists>u w1. call Quit (quit W) w = (Inr u, w1)"
  by (auto simp: shutdown_def split: prod.splits sum.splits)

lemma main_Completed:
  assumes "main W B d0 = Some (Completed, w)"
  shows "\<exists>w3 w4. startup W d0 = (Inr (), w3) \<and> pagination_loop W B w3 = Some (Inr (), w4) \<and>
                 shutdown W w4 = (Completed, w)"
  using assms
  by (auto simp: main_def split: prod.splits sum.splits option.splits)

lemma not_closing_iff:
  "(\<forall>ev\<in>set evs. \<not> closing ev) \<longleftrightarrow> Quit \<notin> set evs \<and> (\<forall>p t. ToCsv p t \<notin> set evs)"
proof
  assume a: "\<forall>ev\<in>set evs. \<not> closing ev"
  show "Quit \<notin> set evs \<and> (\<forall>p t. ToCsv p t \<notin> set evs)"
    using a closing.simps(1,2) by blast
next
  assume a: "Quit \<notin> set evs \<and> (\<forall>p t. ToCsv p t \<notin> set evs)"
  show "\<forall>ev\<in>set evs. \<not> closing ev"
  proof
    fix ev assume m: "ev \<in> set evs"
    show "\<not> closing ev"
    proof
      assume "closing ev"
      then have "ev = Quit \<or> (\<exists>p t. ev = ToCsv p t)" by (cases ev) simp_all
      with m a show False by auto
    qed
  qed
qed

lemma stays_open_no_closing:
  "stays_open w w' \<Longrightarrow> \<forall>ev\<in>set (trace w). \<not> closing ev \<Longrightarrow> \<forall>ev\<in>set (trace w'). \<not> closing ev"
  unfolding stays_open_def by auto

lemma completed_run:
  assumes "main W B d0 = Some (Completed, w)"
  shows "\<exists>w3 w4.
           startup W d0 = (Inr (), w3) \<and> pagination_loop W B w3 = Some (Inr (), w4) \<and>
           trace w = trace w4 @ [Quit, ToCsv csv_path (csv_rows (DataFrame (all_data w)) True),
                                 Print completion_message] \<and>
           (\<forall>ev\<in>set (trace w4). \<not> closing ev) \<and> keyed w"
proof -
  obtain w3 w4 where s: "startup W d0 = (Inr (), w3)"
    and l: "pagination_loop W B w3 = Some (Inr (), w4)"
    and f: "shutdown W w4 = (Completed, w)"
    using main_Completed[OF assms] by blast
  obtain u w5 where q: "call Quit (quit W) w4 = (Inr u, w5)"
    using shutdown_cases[OF f] by blast
  have d: "all_data w = all_data w4"
    using shutdown_Completed(3)[OF q] f by simp
  have t: "trace w = trace w4 @ [Quit, ToCsv csv_path (csv_rows (DataFrame (all_data w)) True),
                                 Print completion_message]"
    using shutdown_Completed(2)[OF q] f d by simp
  have "\<forall>ev\<in>set (trace w3). \<not> closing ev" using startup_fresh[OF s] by simp
  moreover have "stays_open w3 w4" using loop_stays_open[OF l] by simp
  ultimately have n: "\<forall>ev\<in>set (trace w4). \<not> closing ev" using stays_open_no_closing by blast
  have "keyed w3" using startup_fresh[OF s] by (simp add: keyed_def)
  then have "keyed w4" using loop_keyed[OF l] by simp
  then have k: "keyed w" using d by (simp add: keyed_def)
  from s l t n k show ?thesis by blast
qed

lemma closing_events_Nil: "closing_events w = [] \<longleftrightarrow> (\<forall>ev\<in>set (trace w). \<not> closing ev)"
  by (simp add: closing_events_def filter_empty_conv)

subsection \<open>Exceptions in the pagination steps\<close>

text \<open>
  C3, as the code has it. Let the script have started, the loop have made \<open>n\<close> full
  turns, the next page be scraped, and let then one of the four pagination steps (scroll,
  wait for the control, click, wait for the listings) raise \<open>e\<close>. If \<open>e\<close> is a
  \<open>TimeoutException\<close>, the loop stops normally and the run goes on to close the session
  and, when that succeeds, to write the file. If \<open>e\<close> is of any other class, nothing
  catches it: the run ends with \<open>e\<close>, the session has not been closed and no file has
  been written.
\<close>

theorem only_timeout_is_absorbed:
  assumes "startup W d0 = (Inr u0, w)"
    and "after_pages W B n w = Some wn"
    and "scrape_data_from_page W B wn = (Inr u, w1)"
    and "try_next_page W w1 = (Inl e, w2)"
  shows "(\<forall>m. e = TimeoutException m \<longrightarrow>
            pagination_loop W B w = Some (Inr (), print ''Reached the last page.'' w2) \<and>
            main W B d0 = Some (shutdown W (print ''Reached the last page.'' w2)) \<and>
            (\<forall>u' w3. call Quit (quit W) (print ''Reached the last page.'' w2) = (Inr u', w3) \<longrightarrow>
               fst (shutdown W (print ''Reached the last page.'' w2)) = Completed \<and>
               closing_events (snd (shutdown W (print ''Reached the last page.'' w2))) =
                 [Quit, ToCsv csv_path (csv_rows (DataFrame (all_data w2)) True)])) \<and>
         (\<forall>m. e = OtherException m \<longrightarrow>
            pagination_loop W B w = Some (Inl e, w2) \<and>
            main W B d0 = Some (Uncaught e, w2) \<and>
            closing_events w2 = [])"
proof -
  have open0: "\<forall>ev\<in>set (trace w). \<not> closing ev"
    using startup_fresh[OF assms(1)] by simp
  have "stays_open w wn" using assms(2) by (rule after_pages_stays_open)
  moreover have "stays_open wn w1" using scrape_stays_open[of wn W B] assms(3) by simp
  moreover have "stays_open w1 w2" using try_next_page_stays_open[of w1 W] assms(4) by simp
  ultimately have "stays_open w w2" using stays_open_trans by blast
  then have open2: "\<forall>ev\<in>set (trace w2). \<not> closing ev"
    using open0 by (rule stays_open_no_closing)
  have u0: "u0 = ()" by simp
  show ?thesis
  proof (intro conjI allI impI)
    fix m assume e: "e = TimeoutException m"
    have "pagination_loop W B wn = Some (Inr (), print ''Reached the last page.'' w2)"
      using assms(3) assms(4)[unfolded e] by (rule loop_timeout)
    then show l: "pagination_loop W B w = Some (Inr (), print ''Reached the last page.'' w2)"
      using after_pages_loop[OF assms(2)] by simp
    show "main W B d0 = Some (shutdown W (print ''Reached the last page.'' w2))"
      using assms(1) l by (simp add: main_def)
    fix u' w3
    assume q: "call Quit (quit W) (print ''Reached the last page.'' w2) = (Inr u', w3)"
    show "fst (shutdown W (print ''Reached the last page.'' w2)) = Completed"
      using shutdown_Completed(1)[OF q] by simp
    have "filter closing (trace w2) = []"
      using open2 by (simp add: filter_empty_conv)
    then show "closing_events (snd (shutdown W (print ''Reached the last page.'' w2))) =
                 [Quit, ToCsv csv_path (csv_rows (DataFrame (all_data w2)) True)]"
      unfolding closing_events_def shutdown_Completed(2)[OF q] by simp
  next
    fix m assume e: "e = OtherException m"
    have "pagination_loop W B wn = Some (Inl (OtherException m), w2)"
      using assms(3) assms(4)[unfolded e] by (rule loop_other)
    then show l: "pagination_loop W B w = Some (Inl e, w2)"
      using after_pages_loop[OF assms(2)] e by simp
    show "main W B d0 = Some (Uncaught e, w2)"
      using assms(1) l by (simp add: main_def)
    show "closing_events w2 = []"
      using open2 by (simp add: closing_events_Nil)
  qed
qed

text \<open>
  With the browser whose scrolling raises, the hypotheses hold on the first page; with
  the plain browser the wait for the next-page control times out on the second.
\<close>

theorem only_timeout_is_absorbed_witness:
  "report (main scroll_fails (stub_bs4 two_pages) [''page 2'']) =
     Some (Uncaught (OtherException ''javascript error''),
           [[(''Rooms'', ''2 rooms''), (''Size'', ''45 m2''), (''Price'', ''CHF 1200''),
             (''Address'', ''N/A'')]], []) \<and>
   (\<exists>w. main stub_driver (stub_bs4 two_pages) [''page 2''] = Some (Completed, w))"
proof -
  obtain w wn w1 w2 where
    h: "startup scroll_fails [''page 2''] = (Inr (), w)"
       "after_pages scroll_fails (stub_bs4 two_pages) 0 w = Some wn"
       "scrape_data_from_page scroll_fails (stub_bs4 two_pages) wn = (Inr (), w1)"
       "try_next_page scroll_fails w1 = (Inl (OtherException ''javascript error''), w2)"
    and d: "all_data w2 = [[(''Rooms'', ''2 rooms''), (''Size'', ''45 m2''),
                            (''Price'', ''CHF 1200''), (''Address'', ''N/A'')]]"
    by (simp add: run_simps main_simps)
  obtain v vn v1 v2 v3 where
    k: "startup stub_driver [''page 2''] = (Inr (), v)"
       "after_pages stub_driver (stub_bs4 two_pages) 0 v = Some vn"
       "scrape_data_from_page stub_driver (stub_bs4 two_pages) vn = (Inr (), v1)"
       "try_next_page stub_driver v1 = (Inl (TimeoutException ''Message: ''), v2)"
       "call Quit (quit stub_driver) (print ''Reached the last page.'' v2) = (Inr (), v3)"
    by (simp add: run_simps main_simps)
  from only_timeout_is_absorbed[OF h] d
  have 1: "report (main scroll_fails (stub_bs4 two_pages) [''page 2'']) =
     Some (Uncaught (OtherException ''javascript error''),
           [[(''Rooms'', ''2 rooms''), (''Size'', ''45 m2''), (''Price'', ''CHF 1200''),
             (''Address'', ''N/A'')]], [])"
    by (simp add: report_def)
  from only_timeout_is_absorbed[OF k(1-4)] k(5)
  have "main stub_driver (stub_bs4 two_pages) [''page 2'']
          = Some (shutdown stub_driver (print ''Reached the last page.'' v2))"
    and "fst (shutdown stub_driver (print ''Reached the last page.'' v2)) = Completed"
    by blast+
  then have 2: "\<exists>w. main stub_driver (stub_bs4 two_pages) [''page 2''] = Some (Completed, w)"
    by (metis prod.collapse)
  from 1 2 show ?thesis by blast
qed

text \<open>
  Against C3 as the specification words it: on the example site, with the browser whose
  scrolling raises an exception that is not a timeout, the run ends with that exception
  after the first page; its trace has no closing event, so the session was not closed and
  no file was written.
\<close>

theorem other_exception_counterexample:
  "report (main scroll_fails (stub_bs4 two_pages) [''page 1'', ''page 2'']) =
     Some (Uncaught (OtherException ''javascript error''),
           [[(''Rooms'', ''3.5 rooms''), (''Size'', ''80 m2''), (''Price'', ''CHF 2000''),
             (''Address'', ''Basel'')],
            [(''Rooms'', ''2 rooms''), (''Size'', ''45 m2''), (''Price'', ''CHF 1200''),
             (''Address'', ''N/A'')]],
           [])"
  by (simp add: run_simps main_simps pagination_loop.simps)

subsection \<open>Closing the session, then writing\<close>

text \<open>
  C9. In a run that reaches the script's last line, the trace is: what happened up to the
  end of the loop, in which the session is neither closed nor a file written; then the
  one call of \<open>quit\<close>; then the writing of the file; then the final message.
\<close>

theorem session_closed_once_before_writing:
  assumes "main W B d0 = Some (Completed, w)"
  shows "\<exists>w3 w4 rows.
           startup W d0 = (Inr (), w3) \<and>
           pagination_loop W B w3 = Some (Inr (), w4) \<and>
           trace w = trace w4 @ [Quit, ToCsv csv_path rows, Print completion_message] \<and>
           Quit \<notin> set (trace w4) \<and> (\<forall>p t. ToCsv p t \<notin> set (trace w4)) \<and>
           count_list (trace w) Quit = 1"
proof -
  obtain w3 w4 where s: "startup W d0 = (Inr (), w3)"
    and l: "pagination_loop W B w3 = Some (Inr (), w4)"
    and t: "trace w = trace w4 @ [Quit, ToCsv csv_path (csv_rows (DataFrame (all_data w)) True),
                                  Print completion_message]"
    and o: "\<forall>ev\<in>set (trace w4). \<not> closing ev"
    using completed_run[OF assms] by blast
  have n: "Quit \<notin> set (trace w4) \<and> (\<forall>p t. ToCsv p t \<notin> set (trace w4))"
    using o by (simp add: not_closing_iff)
  then have "count_list (trace w4) Quit = 0" by (simp add: count_list_0_iff)
  then have c: "count_list (trace w) Quit = 1" unfolding t by simp
  from s l t n c show ?thesis by blast
qed

text \<open>The run on the example site: one \<open>quit\<close>, and after it the file of four rows.\<close>

theorem session_closed_once_before_writing_witness:
  "\<exists>w. main stub_driver (stub_bs4 two_pages) [''page 1'', ''page 2''] = Some (Completed, w) \<and>
       count_list (trace w) Quit = 1 \<and>
       closing_events w =
         [Quit,
          ToCsv csv_path
            [['''', ''Rooms'', ''Size'', ''Price'', ''Address''],
             [''0'', ''3.5 rooms'', ''80 m2'', ''CHF 2000'', ''Basel''],
             [''1'', ''2 rooms'', ''45 m2'', ''CHF 1200'', ''N/A''],
             [''2'', ''2 rooms'', ''45 m2'', ''CHF 1200'', ''N/A'']]]"
proof -
  obtain w where m: "main stub_driver (stub_bs4 two_pages) [''page 1'', ''page 2'']
                       = Some (Completed, w)"
    and e: "closing_events w =
         [Quit,
          ToCsv csv_path
            [['''', ''Rooms'', ''Size'', ''Price'', ''Address''],
             [''0'', ''3.5 rooms'', ''80 m2'', ''CHF 2000'', ''Basel''],
             [''1'', ''2 rooms'', ''45 m2'', ''CHF 1200'', ''N/A''],
             [''2'', ''2 rooms'', ''45 m2'', ''CHF 1200'', ''N/A'']]]"
    by (simp add: run_simps main_simps pagination_loop.simps)
  from session_closed_once_before_writing[OF m] have "count_list (trace w) Quit = 1" by blast
  with m e show ?thesis by blast
qed

subsection \<open>The file\<close>







end
